theory Spec2Isabelle
  imports Main "HOL-Library.Signed_Division" "HOL-Library.Word"
begin

section \<open>Conway's Game of Life on a fixed 5 x 4 universe\<close>

text \<open>
  A shallow embedding of \<^verbatim>\<open>Conway-Game-Of-Life.cpp\<close>. The program keeps two arrays
  \<^verbatim>\<open>int currentGen[ROW][COL]\<close> and \<^verbatim>\<open>int nextGen[ROW][COL]\<close>, fills the first one with
  \<^verbatim>\<open>rand() % 2\<close>, and then repeats: compute \<^verbatim>\<open>nextGen\<close> from \<^verbatim>\<open>currentGen\<close>, print it, read
  a key, leave on \<^verbatim>\<open>q\<close>, leave when both arrays agree, otherwise copy \<^verbatim>\<open>nextGen\<close> over
  \<^verbatim>\<open>currentGen\<close>.
\<close>

subsection \<open>Constants and data\<close>

definition ROW :: int where
  "ROW = 5"

definition COL :: int where
  "COL = 4"

text \<open>The eight moves from a cell, as the two global arrays list them.\<close>

definition rowCell :: "int list" where
  "rowCell = [-1, -1, -1, 0, 1, 0, 1, 1]"

definition colCell :: "int list" where
  "colCell = [-1, 1, 0, -1, -1, 1, 0, 1]"

text \<open>
  An array \<^verbatim>\<open>int [ROW][COL]\<close> is a list of rows. Its C type fixes both dimensions, which a
  list does not, so \<open>wf_board\<close> is the invariant every array of the program satisfies.
  A cell is a C \<^verbatim>\<open>int\<close>; the program only stores 0, 1 and \<^verbatim>\<open>rand() % 2\<close> in a cell and only
  compares cells, so no cell arithmetic can overflow and \<^typ>\<open>int\<close> is exact. Row and
  column indices stay between \<open>-1\<close> and \<open>ROW\<close> (or \<open>COL\<close>) for the positions the program
  visits.
\<close>

type_synonym board = "int list list"

definition wf_board :: "board \<Rightarrow> bool" where
  "wf_board b \<longleftrightarrow> length b = nat ROW \<and> list_all (\<lambda>row. length row = nat COL) b"

text \<open>
  The arrays are passed to functions by address and written through it, so memory is a
  map from array references to array contents. A reference denotes a whole array: two
  references are either the same array or two disjoint ones. \<open>main\<close> owns exactly two.
\<close>

datatype buffer = CurrentGen | NextGen

type_synonym 'p memory = "'p \<Rightarrow> board"

text \<open>The assignment \<^verbatim>\<open>p[i][j] = v\<close>.\<close>

definition store :: "'p memory \<Rightarrow> 'p \<Rightarrow> nat \<Rightarrow> nat \<Rightarrow> int \<Rightarrow> 'p memory" where
  "store m p i j v = m(p := (m p)[i := (m p ! i)[j := v]])"

text \<open>
  A counting loop \<^verbatim>\<open>for (int i = lo; i < n; i++) body\<close> without \<^verbatim>\<open>break\<close> or \<^verbatim>\<open>return\<close> in
  its body; the body receives the index and the state.
\<close>

function for_loop :: "nat \<Rightarrow> nat \<Rightarrow> (nat \<Rightarrow> 's \<Rightarrow> 's) \<Rightarrow> 's \<Rightarrow> 's" where
  "for_loop i n body s = (if i < n then for_loop (Suc i) n body (body i s) else s)"
  by pat_completeness auto
termination
  by (relation "measure (\<lambda>(i, n, body, s). n - i)") auto

declare for_loop.simps [simp del]

subsection \<open>Counting neighbours\<close>

text \<open>\<^verbatim>\<open>isSafe\<close> ignores its array argument and tests the coordinates only.\<close>

definition isSafe :: "board \<Rightarrow> int \<Rightarrow> int \<Rightarrow> bool" where
  "isSafe matrix x y \<longleftrightarrow> x \<ge> 0 \<and> x < ROW \<and> y \<ge> 0 \<and> y < COL"

text \<open>
  The state of the loop in \<^verbatim>\<open>countNeighbors\<close>: the C variable \<open>counter\<close>, and two ghost
  lists that record what the loop does: the positions \<open>(x, y)\<close> it computes and hands to
  \<^verbatim>\<open>isSafe\<close>, and the positions at which it evaluates \<^verbatim>\<open>board[x][y]\<close>. The operator \<^verbatim>\<open>&&\<close>
  evaluates its right operand only when the left one holds, so the array is read exactly
  when \<^verbatim>\<open>isSafe\<close> returned true.
\<close>

record count_state =
  counter :: int
  examined :: "(int \<times> int) list"
  reads :: "(int \<times> int) list"

definition countNeighbors_body :: "board \<Rightarrow> int \<Rightarrow> int \<Rightarrow> nat \<Rightarrow> count_state \<Rightarrow> count_state" where
  "countNeighbors_body board r c i s =
     (let x = r + rowCell ! i;
          y = c + colCell ! i;
          s1 = s\<lparr>examined := examined s @ [(x, y)]\<rparr>
      in if isSafe board x y
         then (let s2 = s1\<lparr>reads := reads s1 @ [(x, y)]\<rparr>
               in if board ! nat x ! nat y = 1 then s2\<lparr>counter := counter s2 + 1\<rparr> else s2)
         else s1)"

definition countNeighbors_run :: "board \<Rightarrow> int \<Rightarrow> int \<Rightarrow> count_state" where
  "countNeighbors_run board r c =
     for_loop 0 8 (countNeighbors_body board r c) \<lparr>counter = 0, examined = [], reads = []\<rparr>"

definition countNeighbors :: "board \<Rightarrow> int \<Rightarrow> int \<Rightarrow> int" where
  "countNeighbors board r c = counter (countNeighbors_run board r c)"

subsection \<open>Computing the next generation\<close>

text \<open>
  The body of the inner loop of \<open>main\<close> that fills \<^verbatim>\<open>nextGen[i][j]\<close>. The cell is first
  set to 0; for a live cell the three tests follow one another without \<^verbatim>\<open>else\<close>, each
  assigning when it holds. \<^verbatim>\<open>SHOW_NEIGHBOR_COUNT\<close> is the constant \<^verbatim>\<open>false\<close>, so the debugging
  output never runs.
\<close>

definition nextGen_cell :: "nat \<Rightarrow> nat \<Rightarrow> buffer memory \<Rightarrow> buffer memory" where
  "nextGen_cell i j m =
     (let m0 = store m NextGen i j 0;
          totalNeighbors = countNeighbors (m0 CurrentGen) (int i) (int j)
      in if m0 CurrentGen ! i ! j = 1
         then (let m1 = (if totalNeighbors < 2 then store m0 NextGen i j 0 else m0);
                   m2 = (if totalNeighbors = 2 \<or> totalNeighbors = 3
                         then store m1 NextGen i j 1 else m1);
                   m3 = (if totalNeighbors > 3 then store m2 NextGen i j 0 else m2)
               in m3)
         else (if totalNeighbors = 3 then store m0 NextGen i j 1 else m0))"

text \<open>The two nested loops over all rows and columns.\<close>

definition computeNextGeneration :: "buffer memory \<Rightarrow> buffer memory" where
  "computeNextGeneration m =
     for_loop 0 (nat ROW) (\<lambda>i. for_loop 0 (nat COL) (\<lambda>j. nextGen_cell i j)) m"

subsection \<open>Comparing two generations\<close>

text \<open>
  \<^verbatim>\<open>generationsAreIdentical\<close> leaves both loops with \<^verbatim>\<open>return false\<close> at the first pair of cells
  that differ. The inner loop returns \<open>False\<close> for that early return and \<open>True\<close> when it has
  run through the row. The ghost list records the positions compared, in order.
\<close>

function identical_cols ::
  "board \<Rightarrow> board \<Rightarrow> nat \<Rightarrow> nat \<Rightarrow> (nat \<times> nat) list \<Rightarrow> bool \<times> (nat \<times> nat) list" where
  "identical_cols board1 board2 i j compared =
     (if int j < COL
      then (if board1 ! i ! j \<noteq> board2 ! i ! j
            then (False, compared @ [(i, j)])
            else identical_cols board1 board2 i (Suc j) (compared @ [(i, j)]))
      else (True, compared))"
  by pat_completeness auto
termination
  by (relation "measure (\<lambda>(board1, board2, i, j, compared). nat COL - j)") auto

declare identical_cols.simps [simp del]

text \<open>
  The outer loop runs while \<^verbatim>\<open>i < r\<close>. The arrays have \<open>ROW\<close> rows: reaching a row beyond
  them reads outside the arrays, which C leaves undefined; the model answers \<open>None\<close> there.
\<close>

function identical_rows ::
  "board \<Rightarrow> board \<Rightarrow> int \<Rightarrow> nat \<Rightarrow> (nat \<times> nat) list \<Rightarrow> (bool \<times> (nat \<times> nat) list) option" where
  "identical_rows board1 board2 r i compared =
     (if int i < r
      then (if int i < ROW
            then (let (same, compared') = identical_cols board1 board2 i 0 compared
                  in if same then identical_rows board1 board2 r (Suc i) compared'
                     else Some (False, compared'))
            else None)
      else Some (True, compared))"
  by pat_completeness auto
termination
  by (relation "measure (\<lambda>(board1, board2, r, i, compared). nat r - i)") auto

declare identical_rows.simps [simp del]

definition generationsAreIdentical_run ::
  "board \<Rightarrow> board \<Rightarrow> int \<Rightarrow> (bool \<times> (nat \<times> nat) list) option" where
  "generationsAreIdentical_run board1 board2 r = identical_rows board1 board2 r 0 []"

definition generationsAreIdentical :: "board \<Rightarrow> board \<Rightarrow> int \<Rightarrow> bool option" where
  "generationsAreIdentical board1 board2 r =
     map_option fst (generationsAreIdentical_run board1 board2 r)"

subsection \<open>Adopting the next generation\<close>

text \<open>
  \<^verbatim>\<open>makeCurrentGenSameAsNextGen\<close> receives the two arrays by address. Its loops have no early
  exit, so with \<^verbatim>\<open>r > ROW\<close> they always write outside the arrays (undefined in C, \<open>None\<close> here).
\<close>

definition makeCurrentGenSameAsNextGen_cell ::
  "'p \<Rightarrow> 'p \<Rightarrow> nat \<Rightarrow> nat \<Rightarrow> 'p memory \<Rightarrow> 'p memory" where
  "makeCurrentGenSameAsNextGen_cell board1 board2 i j m =
     (let m1 = store m board1 i j (m board2 ! i ! j)
      in store m1 board2 i j 0)"

definition makeCurrentGenSameAsNextGen ::
  "'p \<Rightarrow> 'p \<Rightarrow> int \<Rightarrow> 'p memory \<Rightarrow> 'p memory option" where
  "makeCurrentGenSameAsNextGen board1 board2 r m =
     (if r > ROW then None
      else Some (for_loop 0 (nat r)
                   (\<lambda>i. for_loop 0 (nat COL)
                      (\<lambda>j. makeCurrentGenSameAsNextGen_cell board1 board2 i j)) m))"

subsection \<open>The first generation\<close>

text \<open>
  \<^verbatim>\<open>rand\<close> is an external generator: \<open>rnd k\<close> is what its call number \<open>k\<close> returns, and the
  loop state carries the number of calls made so far. C's \<^verbatim>\<open>%\<close> truncates towards zero,
  which is \<open>smod\<close>. The arrays of \<open>main\<close> are not initialised, so the seeding starts from
  arbitrary contents.
\<close>

definition randomSeed_cell ::
  "(nat \<Rightarrow> int) \<Rightarrow> nat \<Rightarrow> nat \<Rightarrow> buffer memory \<times> nat \<Rightarrow> buffer memory \<times> nat" where
  "randomSeed_cell rnd i j = (\<lambda>(m, k). (store m CurrentGen i j (rnd k smod 2), Suc k))"

definition randomSeed :: "(nat \<Rightarrow> int) \<Rightarrow> buffer memory \<Rightarrow> buffer memory" where
  "randomSeed rnd m =
     fst (for_loop 0 (nat ROW) (\<lambda>i. for_loop 0 (nat COL) (\<lambda>j. randomSeed_cell rnd i j)) (m, 0))"

subsection \<open>The driver\<close>

text \<open>
  The state of \<open>main\<close>: the two arrays, the generation counter, and what has been written
  to the console. The counter is a 32-bit \<^verbatim>\<open>int\<close> that grows by one with every board
  printed; it is the one integer of the program that can leave the range of its type, so
  it is a machine word here. C leaves the increment at the largest \<^verbatim>\<open>int\<close> undefined; the
  word wraps around there.
\<close>

datatype event = Printed "32 word" board | Prompt | StillLife

record main_state =
  mem :: "buffer memory"
  generationCounter :: "32 word"
  console :: "event list"

text \<open>
  \<^verbatim>\<open>printBoard\<close> writes its message and the board to the console. Every message of the
  program is \<^verbatim>\<open>"Generation "\<close> followed by a number, so the number stands for the message.
\<close>

definition printBoard :: "board \<Rightarrow> 32 word \<Rightarrow> event list \<Rightarrow> event list" where
  "printBoard board msg out = out @ [Printed msg board]"

text \<open>The call \<^verbatim>\<open>printBoard(p, "Generation " + to_string(generationCounter++))\<close>.\<close>

definition print_generation :: "buffer \<Rightarrow> main_state \<Rightarrow> main_state" where
  "print_generation p s =
     s\<lparr>console := printBoard (mem s p) (generationCounter s) (console s),
       generationCounter := generationCounter s + 1\<rparr>"

text \<open>\<open>main\<close> up to the loop: seed, set the counter to 1, print generation 1.\<close>

definition main_start :: "(nat \<Rightarrow> int) \<Rightarrow> buffer memory \<Rightarrow> main_state" where
  "main_start rnd m0 =
     print_generation CurrentGen \<lparr>mem = randomSeed rnd m0, generationCounter = 1, console = []\<rparr>"

text \<open>
  One pass through the body of the \<^verbatim>\<open>do ... while (true)\<close> loop, given the character that
  \<^verbatim>\<open>cin.get()\<close> delivers. The pass either leaves the loop through one of the two \<^verbatim>\<open>break\<close>
  statements or comes back to the head of the loop. \<open>Undefined\<close> stands for a pass in which
  a called function would leave the arrays.
\<close>

datatype outcome =
    is_Running: Running main_state
  | is_UserQuit: UserQuit main_state
  | is_Stable: Stable main_state
  | Undefined

definition loop_body :: "main_state \<Rightarrow> char \<Rightarrow> outcome" where
  "loop_body s c =
     (let s1 = s\<lparr>mem := computeNextGeneration (mem s)\<rparr>;
          s2 = print_generation NextGen s1;
          s3 = s2\<lparr>console := console s2 @ [Prompt]\<rparr>
      in if c = CHR ''q'' \<or> c = CHR ''Q'' then UserQuit s3
         else (case generationsAreIdentical (mem s3 CurrentGen) (mem s3 NextGen) ROW of
                 None \<Rightarrow> Undefined
               | Some True \<Rightarrow> Stable (s3\<lparr>console := console s3 @ [StillLife]\<rparr>)
               | Some False \<Rightarrow>
                   (case makeCurrentGenSameAsNextGen CurrentGen NextGen ROW (mem s3) of
                      None \<Rightarrow> Undefined
                    | Some m' \<Rightarrow> Running (s3\<lparr>mem := m'\<rparr>))))"

text \<open>
  The loop driven by the characters typed so far: \<open>Running s\<close> when the loop is back at its
  head in state \<open>s\<close> after all of them, and the way it ended otherwise.
\<close>

fun run_keys :: "main_state \<Rightarrow> char list \<Rightarrow> outcome" where
  "run_keys s [] = Running s"
| "run_keys s (c # cs) =
     (case loop_body s c of Running s' \<Rightarrow> run_keys s' cs | out \<Rightarrow> out)"

subsection \<open>Notions used in the statements\<close>

text \<open>The eight positions around \<open>(r, c)\<close>, in the order of the two move arrays.\<close>

definition around :: "int \<Rightarrow> int \<Rightarrow> (int \<times> int) list" where
  "around r c = [(r - 1, c - 1), (r - 1, c + 1), (r - 1, c), (r, c - 1),
                 (r + 1, c - 1), (r, c + 1), (r + 1, c), (r + 1, c + 1)]"

text \<open>
  The value the loop body leaves in \<^verbatim>\<open>nextGen[i][j]\<close>, and the board made of these values.
\<close>

definition next_cell :: "board \<Rightarrow> nat \<Rightarrow> nat \<Rightarrow> int" where
  "next_cell G i j =
     (let n = countNeighbors G (int i) (int j)
      in if G ! i ! j = 1 then (if n = 2 \<or> n = 3 then 1 else 0)
         else (if n = 3 then 1 else 0))"

definition next_board :: "board \<Rightarrow> board" where
  "next_board G = map (\<lambda>i. map (\<lambda>j. next_cell G i j) [0..<nat COL]) [0..<nat ROW]"

text \<open>
  The positions of a board in the order the comparison visits them (row by row), the test
  made at a position, and the part of a list up to and including the first element that
  fails a test.
\<close>

definition all_cells :: "(nat \<times> nat) list" where
  "all_cells = List.product [0..<nat ROW] [0..<nat COL]"

definition same_at :: "board \<Rightarrow> board \<Rightarrow> nat \<times> nat \<Rightarrow> bool" where
  "same_at a b = (\<lambda>(i, j). a ! i ! j = b ! i ! j)"

definition until_first_failure :: "('a \<Rightarrow> bool) \<Rightarrow> 'a list \<Rightarrow> 'a list" where
  "until_first_failure P xs = takeWhile P xs @ take 1 (dropWhile P xs)"

text \<open>The board with every cell dead.\<close>

definition zero_board :: board where
  "zero_board = replicate (nat ROW) (replicate (nat COL) 0)"

text \<open>Every cell of a board is 0 or 1.\<close>

definition two_valued :: "board \<Rightarrow> bool" where
  "two_valued b \<longleftrightarrow> list_all (list_all (\<lambda>v. v = 0 \<or> v = 1)) b"

text \<open>The board the seeding produces from the results of \<^verbatim>\<open>rand\<close>.\<close>

definition seed_board :: "(nat \<Rightarrow> int) \<Rightarrow> board" where
  "seed_board rnd =
     map (\<lambda>i. map (\<lambda>j. rnd (i * nat COL + j) smod 2) [0..<nat COL]) [0..<nat ROW]"

subsection \<open>Concrete inputs\<close>

text \<open>
  The block (a still life), a board that differs from it at \<open>(1, 2)\<close> and \<open>(3, 0)\<close>, and a
  board of arbitrary values standing for an array that has not been written yet.
\<close>

definition block_board :: board where
  "block_board = [[1, 1, 0, 0], [1, 1, 0, 0], [0, 0, 0, 0], [0, 0, 0, 0], [0, 0, 0, 0]]"

definition dented_board :: board where
  "dented_board = [[1, 1, 0, 0], [1, 1, 1, 0], [0, 0, 0, 0], [1, 0, 0, 0], [0, 0, 0, 0]]"

definition junk_board :: board where
  "junk_board = [[7, 7, 7, 7], [7, 7, 7, 7], [7, 7, 7, 7], [7, 7, 7, 7], [7, 7, 7, 7]]"

text \<open>
  The memory of \<open>main\<close> before anything is written, and memories and states of \<open>main\<close>
  whose current generation is the block or the dented board.
\<close>

definition junk_mem :: "buffer memory" where
  "junk_mem = (\<lambda>p. junk_board)"

definition block_mem :: "buffer memory" where
  "block_mem = (\<lambda>p. case p of CurrentGen \<Rightarrow> block_board | NextGen \<Rightarrow> junk_board)"

definition dented_mem :: "buffer memory" where
  "dented_mem = (\<lambda>p. case p of CurrentGen \<Rightarrow> dented_board | NextGen \<Rightarrow> junk_board)"

definition dented_state :: main_state where
  "dented_state = \<lparr>mem = dented_mem, generationCounter = 2, console = [Printed 1 dented_board]\<rparr>"

text \<open>
  Results of \<^verbatim>\<open>rand\<close> that seed the block, and the state in which \<open>main\<close> enters its loop
  with them.
\<close>

definition block_rnd :: "nat \<Rightarrow> int" where
  "block_rnd k = (if k \<in> {0, 1, 4, 5} then 1 else 0)"

definition block_state :: main_state where
  "block_state = \<lparr>mem = block_mem, generationCounter = 2, console = [Printed 1 block_board]\<rparr>"

subsection \<open>Facts about counting loops\<close>

lemma for_loop_fold: "for_loop i n body s = fold body [i..<n] s"
proof (induction i n body s rule: for_loop.induct)
  case (1 i n body s)
  show ?case
  proof (cases "i < n")
    case True
    then show ?thesis using 1 by (subst for_loop.simps) (simp add: upt_conv_Cons)
  next
    case False
    then show ?thesis by (subst for_loop.simps) simp
  qed
qed

lemma for_loop_invariant:
  assumes "P i s" and "i \<le> n"
    and "\<And>k t. i \<le> k \<Longrightarrow> k < n \<Longrightarrow> P k t \<Longrightarrow> P (Suc k) (body k t)"
  shows "P n (for_loop i n body s)"
  using assms
proof (induction i n body s rule: for_loop.induct)
  case (1 i n body s)
  show ?case
  proof (cases "i < n")
    case True
    have "P n (for_loop (Suc i) n body (body i s))"
      using True 1 by (intro "1.IH") auto
    then show ?thesis using True by (subst for_loop.simps) simp
  next
    case False
    then have "i = n" using 1 by simp
    then show ?thesis using 1 by (subst for_loop.simps) simp
  qed
qed

subsection \<open>Facts about \<open>countNeighbors\<close>\<close>

lemma fold_countNeighbors_body:
  "fold (countNeighbors_body board r c) ks s =
     \<lparr>counter = counter s + int (length (filter (\<lambda>(x, y). isSafe board x y \<and> board ! nat x ! nat y = 1)
                                      (map (\<lambda>i. (r + rowCell ! i, c + colCell ! i)) ks))),
      examined = examined s @ map (\<lambda>i. (r + rowCell ! i, c + colCell ! i)) ks,
      reads = reads s @ filter (\<lambda>(x, y). isSafe board x y)
                          (map (\<lambda>i. (r + rowCell ! i, c + colCell ! i)) ks)\<rparr>"
  by (induction ks arbitrary: s) (auto simp: countNeighbors_body_def Let_def)

lemma upt_8: "[0..<8] = [0, 1, 2, 3, 4, 5, 6, 7]"
  by (simp add: upt_rec)

lemma moves_from:
  "map (\<lambda>i. (r + rowCell ! i, c + colCell ! i)) [0..<8] =
     [(r - 1, c - 1), (r - 1, c + 1), (r - 1, c), (r, c - 1),
      (r + 1, c - 1), (r, c + 1), (r + 1, c), (r + 1, c + 1)]"
  by (simp add: upt_8 rowCell_def colCell_def)

lemma countNeighbors_run_eq:
  "countNeighbors_run board r c =
     \<lparr>counter = int (length (filter (\<lambda>(x, y). isSafe board x y \<and> board ! nat x ! nat y = 1) (around r c))),
      examined = around r c,
      reads = filter (\<lambda>(x, y). isSafe board x y) (around r c)\<rparr>"
  by (simp add: countNeighbors_run_def for_loop_fold fold_countNeighbors_body moves_from around_def)

lemma distinct_around: "distinct (around r c)"
  by (simp add: around_def)

lemma length_around: "length (around r c) = 8"
  by (simp add: around_def)

lemma set_around:
  "set (around r c) =
     (\<lambda>(dr, dc). (r + dr, c + dc)) `
       {(-1, -1), (-1, 0), (-1, 1), (0, -1), (0, 1), (1, -1), (1, 0), (1, 1)}"
  by (auto simp: around_def)

lemma wf_board_nth:
  assumes "wf_board b" and "0 \<le> x" and "x < ROW" and "0 \<le> y" and "y < COL"
  shows "nat x < length b" and "nat y < length (b ! nat x)"
proof -
  show *: "nat x < length b"
    using assms by (simp add: wf_board_def)
  have "length (b ! nat x) = nat COL"
    using assms(1) * by (simp add: wf_board_def list_all_length)
  then show "nat y < length (b ! nat x)"
    using assms by simp
qed
subsection \<open>Facts about writing cells and about the next generation\<close>

lemma store_other: "q \<noteq> p \<Longrightarrow> store m p i j v q = m q"
  by (simp add: store_def)

lemma store_same: "store m p i j v p = (m p)[i := (m p ! i)[j := v]]"
  by (simp add: store_def)

lemma store_store: "store (store m p i j a) p i j b = store m p i j b"
  by (cases "i < length (m p)") (simp_all add: store_def list_update_beyond)

lemma wf_board_store: "wf_board (store m p i j v q) = wf_board (m q)"
proof (cases "q = p")
  case True
  have "length ((m p)[i := (m p ! i)[j := v]] ! k) = length (m p ! k)" for k
    by (cases "k = i"; cases "i < length (m p)") (simp_all add: list_update_beyond)
  then show ?thesis
    using True by (simp add: store_same wf_board_def list_all_length)
next
  case False
  then show ?thesis by (simp add: store_other)
qed

lemma store_nth:
  assumes "i' < length (m p)" and "j' < length (m p ! i')"
  shows "store m p i j v p ! i' ! j' = (if i' = i \<and> j' = j then v else m p ! i' ! j')"
  using assms by (cases "i' = i") (simp_all add: store_same nth_list_update)

lemma wf_board_length: "wf_board b \<Longrightarrow> length b = nat ROW"
  by (simp add: wf_board_def)

lemma wf_board_row: "wf_board b \<Longrightarrow> i < nat ROW \<Longrightarrow> length (b ! i) = nat COL"
  by (simp add: wf_board_def list_all_length)

lemma nextGen_cell_eq:
  "nextGen_cell i j m = store m NextGen i j (next_cell (m CurrentGen) i j)"
  by (simp add: nextGen_cell_def next_cell_def Let_def store_other store_store)

lemma nextGen_cols:
  assumes "wf_board (m NextGen)" and "i < nat ROW"
  defines "m' \<equiv> for_loop 0 (nat COL) (\<lambda>j. nextGen_cell i j) m"
  shows "m' CurrentGen = m CurrentGen"
    and "wf_board (m' NextGen)"
    and "\<And>i' j'. i' < nat ROW \<Longrightarrow> j' < nat COL \<Longrightarrow>
           m' NextGen ! i' ! j' =
             (if i' = i then next_cell (m CurrentGen) i j' else m NextGen ! i' ! j')"
proof -
  let ?P = "\<lambda>j t. t CurrentGen = m CurrentGen \<and> wf_board (t NextGen) \<and>
     (\<forall>i' j'. i' < nat ROW \<longrightarrow> j' < nat COL \<longrightarrow>
        t NextGen ! i' ! j' =
          (if i' = i \<and> j' < j then next_cell (m CurrentGen) i j' else m NextGen ! i' ! j'))"
  have "?P (nat COL) (for_loop 0 (nat COL) (\<lambda>j. nextGen_cell i j) m)"
  proof (rule for_loop_invariant [where P = ?P])
    show "?P 0 m" using assms(1) by simp
    show "0 \<le> nat COL" by simp
  next
    fix k t
    assume k: "k < nat COL" and t: "?P k t"
    have "store t NextGen i k v NextGen ! i' ! j' =
            (if i' = i \<and> j' = k then v else t NextGen ! i' ! j')"
      if "i' < nat ROW" "j' < nat COL" for i' j' v
      using that t by (intro store_nth) (simp_all add: wf_board_length wf_board_row)
    then show "?P (Suc k) (nextGen_cell i k t)"
      using t k by (auto simp: nextGen_cell_eq store_other wf_board_store less_Suc_eq)
  qed
  then show "m' CurrentGen = m CurrentGen" and "wf_board (m' NextGen)"
    and "\<And>i' j'. i' < nat ROW \<Longrightarrow> j' < nat COL \<Longrightarrow>
           m' NextGen ! i' ! j' =
             (if i' = i then next_cell (m CurrentGen) i j' else m NextGen ! i' ! j')"
    by (simp_all add: m'_def)
qed

lemma computeNextGeneration_cells:
  assumes "wf_board (m NextGen)"
  shows "computeNextGeneration m CurrentGen = m CurrentGen"
    and "wf_board (computeNextGeneration m NextGen)"
    and "\<And>i j. i < nat ROW \<Longrightarrow> j < nat COL \<Longrightarrow>
           computeNextGeneration m NextGen ! i ! j = next_cell (m CurrentGen) i j"
proof -
  let ?Q = "\<lambda>i t. t CurrentGen = m CurrentGen \<and> wf_board (t NextGen) \<and>
     (\<forall>i' j'. i' < nat ROW \<longrightarrow> j' < nat COL \<longrightarrow>
        t NextGen ! i' ! j' =
          (if i' < i then next_cell (m CurrentGen) i' j' else m NextGen ! i' ! j'))"
  have "?Q (nat ROW) (computeNextGeneration m)"
    unfolding computeNextGeneration_def
  proof (rule for_loop_invariant [where P = ?Q])
    show "?Q 0 m" using assms by simp
    show "0 \<le> nat ROW" by simp
  next
    fix k t
    assume k: "k < nat ROW" and t: "?Q k t"
    from t have wf: "wf_board (t NextGen)" by simp
    show "?Q (Suc k) (for_loop 0 (nat COL) (\<lambda>j. nextGen_cell k j) t)"
      using nextGen_cols [where m = t and i = k, OF wf k] t by (auto simp: less_Suc_eq)
  qed
  then show "computeNextGeneration m CurrentGen = m CurrentGen"
    and "wf_board (computeNextGeneration m NextGen)"
    and "\<And>i j. i < nat ROW \<Longrightarrow> j < nat COL \<Longrightarrow>
           computeNextGeneration m NextGen ! i ! j = next_cell (m CurrentGen) i j"
    by simp_all
qed

lemma wf_next_board: "wf_board (next_board G)"
  by (simp add: next_board_def wf_board_def list_all_length)

lemma next_board_nth:
  "i < nat ROW \<Longrightarrow> j < nat COL \<Longrightarrow> next_board G ! i ! j = next_cell G i j"
  by (simp add: next_board_def)

lemma wf_board_eqI:
  assumes "wf_board a" and "wf_board b"
    and "\<And>i j. i < nat ROW \<Longrightarrow> j < nat COL \<Longrightarrow> a ! i ! j = b ! i ! j"
  shows "a = b"
proof (rule nth_equalityI)
  show "length a = length b"
    using assms(1,2) by (simp add: wf_board_length)
next
  fix i assume "i < length a"
  then have i: "i < nat ROW" using assms(1) by (simp add: wf_board_length)
  show "a ! i = b ! i"
    by (rule nth_equalityI) (use i assms in \<open>simp_all add: wf_board_row\<close>)
qed

lemma computeNextGeneration_eq:
  assumes "wf_board (m NextGen)"
  shows "computeNextGeneration m = m(NextGen := next_board (m CurrentGen))"
proof
  fix p
  show "computeNextGeneration m p = (m(NextGen := next_board (m CurrentGen))) p"
  proof (cases p)
    case CurrentGen
    then show ?thesis using computeNextGeneration_cells(1) [where m = m, OF assms] by simp
  next
    case NextGen
    have "computeNextGeneration m NextGen = next_board (m CurrentGen)"
      using computeNextGeneration_cells(2,3) [where m = m, OF assms]
      by (intro wf_board_eqI) (simp_all add: wf_next_board next_board_nth)
    then show ?thesis using NextGen by simp
  qed
qed

subsection \<open>Facts about the concrete boards\<close>

lemma wf_block_board: "wf_board block_board"
  by (simp add: wf_board_def block_board_def ROW_def COL_def)

lemma wf_junk_board: "wf_board junk_board"
  by (simp add: wf_board_def junk_board_def ROW_def COL_def)

lemma block_mem_simps: "block_mem CurrentGen = block_board" "block_mem NextGen = junk_board"
  by (simp_all add: block_mem_def)

lemma next_board_block: "next_board block_board = block_board"
  by (simp add: next_board_def next_cell_def countNeighbors_def countNeighbors_run_eq around_def
        isSafe_def block_board_def ROW_def COL_def upt_rec)

lemma wf_dented_board: "wf_board dented_board"
  by (simp add: wf_board_def dented_board_def ROW_def COL_def)

lemma dented_mem_simps: "dented_mem CurrentGen = dented_board" "dented_mem NextGen = junk_board"
  by (simp_all add: dented_mem_def)

lemma countNeighbors_dented:
  "countNeighbors dented_board 0 0 = 3" "countNeighbors dented_board 0 1 = 4"
  "countNeighbors dented_board 3 0 = 0" "countNeighbors dented_board 0 2 = 3"
  "countNeighbors dented_board 0 3 = 1"
  by (simp_all add: countNeighbors_def countNeighbors_run_eq around_def isSafe_def
      dented_board_def ROW_def COL_def)

subsection \<open>Facts about the comparison\<close>

lemma until_first_failure_Nil: "until_first_failure P [] = []"
  by (simp add: until_first_failure_def)

lemma until_first_failure_Cons:
  "until_first_failure P (x # xs) = (if P x then x # until_first_failure P xs else [x])"
  by (simp add: until_first_failure_def)

lemma until_first_failure_append:
  "until_first_failure P (xs @ ys) =
     (if list_all P xs then xs @ until_first_failure P ys else until_first_failure P xs)"
  by (induction xs) (simp_all add: until_first_failure_Cons until_first_failure_Nil)

lemma until_first_failure_all: "list_all P xs \<Longrightarrow> until_first_failure P xs = xs"
  by (induction xs) (simp_all add: until_first_failure_Cons until_first_failure_Nil)

lemma identical_cols_eq:
  "identical_cols a b i j compared =
     (list_all (same_at a b) (map (Pair i) [j..<nat COL]),
      compared @ until_first_failure (same_at a b) (map (Pair i) [j..<nat COL]))"
proof (induction a b i j compared rule: identical_cols.induct)
  case (1 a b i j compared)
  show ?case
  proof (cases "int j < COL")
    case True
    then have j: "[j..<nat COL] = j # [Suc j..<nat COL]"
      by (simp add: upt_conv_Cons)
    show ?thesis
    proof (cases "a ! i ! j \<noteq> b ! i ! j")
      case True
      with \<open>int j < COL\<close> show ?thesis
        by (subst identical_cols.simps) (simp add: j until_first_failure_Cons same_at_def)
    next
      case False
      with \<open>int j < COL\<close> "1.IH" show ?thesis
        by (subst identical_cols.simps) (simp add: j until_first_failure_Cons same_at_def)
    qed
  next
    case False
    then show ?thesis
      by (subst identical_cols.simps) (simp add: until_first_failure_Nil)
  qed
qed

lemma product_Cons: "List.product (x # xs) ys = map (Pair x) ys @ List.product xs ys"
  by simp

lemma identical_rows_eq:
  assumes "r \<le> ROW"
  shows "identical_rows a b r i compared =
     Some (list_all (same_at a b) (List.product [i..<nat r] [0..<nat COL]),
           compared @ until_first_failure (same_at a b) (List.product [i..<nat r] [0..<nat COL]))"
  using assms
proof (induction a b r i compared rule: identical_rows.induct)
  case (1 a b r i compared)
  show ?case
  proof (cases "int i < r")
    case True
    then have i: "[i..<nat r] = i # [Suc i..<nat r]" and row: "int i < ROW"
      using "1.prems" by (simp_all add: upt_conv_Cons)
    let ?ps = "map (Pair i) [0..<nat COL]"
    show ?thesis
    proof (cases "list_all (same_at a b) ?ps")
      case True
      have "identical_rows a b r i compared =
              identical_rows a b r (Suc i) (compared @ until_first_failure (same_at a b) ?ps)"
        using True \<open>int i < r\<close> row
        by (subst identical_rows.simps) (simp add: identical_cols_eq)
      also have "\<dots> = Some (list_all (same_at a b) (List.product [Suc i..<nat r] [0..<nat COL]),
          (compared @ until_first_failure (same_at a b) ?ps)
            @ until_first_failure (same_at a b) (List.product [Suc i..<nat r] [0..<nat COL]))"
        using True \<open>int i < r\<close> row "1.prems"
        by (intro "1.IH" [OF _ _ _ _ refl]) (simp_all add: identical_cols_eq)
      finally show ?thesis
        using True by (simp add: i until_first_failure_append until_first_failure_all)
    next
      case False
      then show ?thesis
        using \<open>int i < r\<close> row
        by (subst identical_rows.simps)
           (simp add: identical_cols_eq i until_first_failure_append)
    qed
  next
    case False
    then show ?thesis
      by (subst identical_rows.simps) (simp add: until_first_failure_Nil)
  qed
qed

lemma generationsAreIdentical_run_eq:
  "generationsAreIdentical_run a b ROW =
     Some (list_all (same_at a b) all_cells, until_first_failure (same_at a b) all_cells)"
  by (simp add: generationsAreIdentical_run_def identical_rows_eq all_cells_def)

lemma list_all_all_cells:
  "list_all (same_at a b) all_cells \<longleftrightarrow> (\<forall>i<nat ROW. \<forall>j<nat COL. a ! i ! j = b ! i ! j)"
  by (auto simp: all_cells_def list_all_iff same_at_def)

lemma generationsAreIdentical_eq:
  "generationsAreIdentical a b ROW = Some (\<forall>i<nat ROW. \<forall>j<nat COL. a ! i ! j = b ! i ! j)"
  by (simp add: generationsAreIdentical_def generationsAreIdentical_run_eq list_all_all_cells)

lemma generationsAreIdentical_wf:
  assumes "wf_board a" and "wf_board b"
  shows "generationsAreIdentical a b ROW = Some (a = b)"
proof -
  have "(\<forall>i<nat ROW. \<forall>j<nat COL. a ! i ! j = b ! i ! j) \<longleftrightarrow> a = b"
    using wf_board_eqI [OF assms] by blast
  then show ?thesis
    by (simp add: generationsAreIdentical_eq)
qed

lemma all_cells_eq:
  "all_cells = [(0, 0), (0, 1), (0, 2), (0, 3), (1, 0), (1, 1), (1, 2), (1, 3),
                (2, 0), (2, 1), (2, 2), (2, 3), (3, 0), (3, 1), (3, 2), (3, 3),
                (4, 0), (4, 1), (4, 2), (4, 3)]"
  by (simp add: all_cells_def ROW_def COL_def upt_rec)

subsection \<open>Facts about adopting the next generation\<close>

lemma wf_zero_board: "wf_board zero_board"
  by (simp add: zero_board_def wf_board_def list_all_length)

lemma zero_board_nth: "i < nat ROW \<Longrightarrow> j < nat COL \<Longrightarrow> zero_board ! i ! j = 0"
  by (simp add: zero_board_def)

lemma makeCurrentGenSameAsNextGen_cols:
  assumes "p1 \<noteq> p2" and "wf_board (m p1)" and "wf_board (m p2)" and "i < nat ROW"
  defines "m' \<equiv> for_loop 0 (nat COL) (\<lambda>j. makeCurrentGenSameAsNextGen_cell p1 p2 i j) m"
  shows "wf_board (m' p1) \<and> wf_board (m' p2)
       \<and> (\<forall>q. q \<noteq> p1 \<and> q \<noteq> p2 \<longrightarrow> m' q = m q)
       \<and> (\<forall>i' j'. i' < nat ROW \<longrightarrow> j' < nat COL \<longrightarrow>
            m' p1 ! i' ! j' = (if i' = i then m p2 ! i' ! j' else m p1 ! i' ! j')
          \<and> m' p2 ! i' ! j' = (if i' = i then 0 else m p2 ! i' ! j'))"
proof -
  let ?P = "\<lambda>j t. wf_board (t p1) \<and> wf_board (t p2)
     \<and> (\<forall>q. q \<noteq> p1 \<and> q \<noteq> p2 \<longrightarrow> t q = m q)
     \<and> (\<forall>i' j'. i' < nat ROW \<longrightarrow> j' < nat COL \<longrightarrow>
          t p1 ! i' ! j' = (if i' = i \<and> j' < j then m p2 ! i' ! j' else m p1 ! i' ! j')
        \<and> t p2 ! i' ! j' = (if i' = i \<and> j' < j then 0 else m p2 ! i' ! j'))"
  have "?P (nat COL) m'"
    unfolding m'_def
  proof (rule for_loop_invariant [where P = ?P])
    show "?P 0 m" using assms(2,3) by simp
    show "0 \<le> nat COL" by simp
  next
    fix k t
    assume k: "k < nat COL" and t: "?P k t"
    have nth: "store u p i k v p ! i' ! j' = (if i' = i \<and> j' = k then v else u p ! i' ! j')"
      if "wf_board (u p)" "i' < nat ROW" "j' < nat COL" for u :: "'a memory" and p i' j' v
      using that by (intro store_nth) (simp_all add: wf_board_length wf_board_row)
    have src: "t p2 ! i ! k = m p2 ! i ! k"
      using t k assms(4) by simp
    show "?P (Suc k) (makeCurrentGenSameAsNextGen_cell p1 p2 i k t)"
      using t k assms(1,4) src
      by (auto simp: makeCurrentGenSameAsNextGen_cell_def Let_def store_other wf_board_store
          nth less_Suc_eq)
  qed
  then show ?thesis
    using assms(4) by simp
qed

lemma makeCurrentGenSameAsNextGen_rows:
  assumes "p1 \<noteq> p2" and "wf_board (m p1)" and "wf_board (m p2)" and "n \<le> nat ROW"
  defines "m' \<equiv> for_loop 0 n
      (\<lambda>i. for_loop 0 (nat COL) (\<lambda>j. makeCurrentGenSameAsNextGen_cell p1 p2 i j)) m"
  shows "wf_board (m' p1) \<and> wf_board (m' p2)
       \<and> (\<forall>q. q \<noteq> p1 \<and> q \<noteq> p2 \<longrightarrow> m' q = m q)
       \<and> (\<forall>i' j'. i' < nat ROW \<longrightarrow> j' < nat COL \<longrightarrow>
            m' p1 ! i' ! j' = (if i' < n then m p2 ! i' ! j' else m p1 ! i' ! j')
          \<and> m' p2 ! i' ! j' = (if i' < n then 0 else m p2 ! i' ! j'))"
proof -
  let ?Q = "\<lambda>i t. wf_board (t p1) \<and> wf_board (t p2)
     \<and> (\<forall>q. q \<noteq> p1 \<and> q \<noteq> p2 \<longrightarrow> t q = m q)
     \<and> (\<forall>i' j'. i' < nat ROW \<longrightarrow> j' < nat COL \<longrightarrow>
          t p1 ! i' ! j' = (if i' < i then m p2 ! i' ! j' else m p1 ! i' ! j')
        \<and> t p2 ! i' ! j' = (if i' < i then 0 else m p2 ! i' ! j'))"
  have "?Q n m'"
    unfolding m'_def
  proof (rule for_loop_invariant [where P = ?Q])
    show "?Q 0 m" using assms(2,3) by simp
    show "0 \<le> n" by simp
  next
    fix k t
    assume k: "k < n" and t: "?Q k t"
    from t have w: "wf_board (t p1)" "wf_board (t p2)" by simp_all
    from k assms(4) have kr: "k < nat ROW" by simp
    note c = makeCurrentGenSameAsNextGen_cols [where m = t and i = k, OF assms(1) w kr]
    show "?Q (Suc k) (for_loop 0 (nat COL) (\<lambda>j. makeCurrentGenSameAsNextGen_cell p1 p2 k j) t)"
      using c t by (auto simp: less_Suc_eq)
  qed
  then show ?thesis by simp
qed

lemma makeCurrentGenSameAsNextGen_eq:
  assumes "p1 \<noteq> p2" and "wf_board (m p1)" and "wf_board (m p2)"
  shows "makeCurrentGenSameAsNextGen p1 p2 ROW m = Some (m(p1 := m p2, p2 := zero_board))"
proof -
  define m' where "m' = for_loop 0 (nat ROW)
      (\<lambda>i. for_loop 0 (nat COL) (\<lambda>j. makeCurrentGenSameAsNextGen_cell p1 p2 i j)) m"
  note r = makeCurrentGenSameAsNextGen_rows [where m = m and n = "nat ROW", OF assms order_refl,
      folded m'_def]
  have 1: "m' p1 = m p2"
    using r assms(3) by (intro wf_board_eqI) simp_all
  have 2: "m' p2 = zero_board"
    using r by (intro wf_board_eqI) (simp_all add: wf_zero_board zero_board_nth)
  have "m' = m(p1 := m p2, p2 := zero_board)"
  proof
    fix q show "m' q = (m(p1 := m p2, p2 := zero_board)) q"
      using 1 2 r by (cases "q = p1"; cases "q = p2") simp_all
  qed
  then show ?thesis
    by (simp add: makeCurrentGenSameAsNextGen_def m'_def)
qed

text \<open>
  When both arguments are the same array, the copy is an assignment of the cell to itself
  and the clearing follows it: the array ends up all zero.
\<close>

lemma makeCurrentGenSameAsNextGen_same_array:
  assumes "wf_board (m p)"
  shows "makeCurrentGenSameAsNextGen p p ROW m = Some (m(p := zero_board))"
proof -
  let ?Q = "\<lambda>i t. wf_board (t p) \<and> (\<forall>q. q \<noteq> p \<longrightarrow> t q = m q)
     \<and> (\<forall>i' j'. i' < nat ROW \<longrightarrow> j' < nat COL \<longrightarrow>
          t p ! i' ! j' = (if i' < i then 0 else m p ! i' ! j'))"
  define m' where "m' = for_loop 0 (nat ROW)
      (\<lambda>i. for_loop 0 (nat COL) (\<lambda>j. makeCurrentGenSameAsNextGen_cell p p i j)) m"
  have cell: "makeCurrentGenSameAsNextGen_cell p p i j t = store t p i j 0" for i j t
    by (simp add: makeCurrentGenSameAsNextGen_cell_def store_store)
  have nth: "store u p i k v p ! i' ! j' = (if i' = i \<and> j' = k then v else u p ! i' ! j')"
    if "wf_board (u p)" "i' < nat ROW" "j' < nat COL" for u :: "'a memory" and i k i' j' v
    using that by (intro store_nth) (simp_all add: wf_board_length wf_board_row)
  have "?Q (nat ROW) m'"
    unfolding m'_def
  proof (rule for_loop_invariant [where P = ?Q])
    show "?Q 0 m" using assms by simp
    show "0 \<le> nat ROW" by simp
  next
    fix i t
    assume i: "i < nat ROW" and t: "?Q i t"
    let ?P = "\<lambda>j u. wf_board (u p) \<and> (\<forall>q. q \<noteq> p \<longrightarrow> u q = m q)
       \<and> (\<forall>i' j'. i' < nat ROW \<longrightarrow> j' < nat COL \<longrightarrow>
            u p ! i' ! j' = (if i' < i \<or> (i' = i \<and> j' < j) then 0 else m p ! i' ! j'))"
    have "?P (nat COL) (for_loop 0 (nat COL) (\<lambda>j. makeCurrentGenSameAsNextGen_cell p p i j) t)"
    proof (rule for_loop_invariant [where P = ?P])
      show "?P 0 t" using t by simp
      show "0 \<le> nat COL" by simp
    next
      fix k u
      assume "k < nat COL" and "?P k u"
      then show "?P (Suc k) (makeCurrentGenSameAsNextGen_cell p p i k u)"
        by (auto simp: cell wf_board_store store_other nth less_Suc_eq)
    qed
    then show "?Q (Suc i) (for_loop 0 (nat COL) (\<lambda>j. makeCurrentGenSameAsNextGen_cell p p i j) t)"
      by (auto simp: less_Suc_eq)
  qed
  then have q: "wf_board (m' p)" "\<And>q. q \<noteq> p \<Longrightarrow> m' q = m q"
    "\<And>i j. i < nat ROW \<Longrightarrow> j < nat COL \<Longrightarrow> m' p ! i ! j = 0"
    by simp_all
  have "m' p = zero_board"
    using q(1,3) by (intro wf_board_eqI) (simp_all add: wf_zero_board zero_board_nth)
  with q(2) have "m' = m(p := zero_board)"
    by (intro ext) simp
  then show ?thesis
    by (simp add: makeCurrentGenSameAsNextGen_def m'_def)
qed

subsection \<open>Facts about the seeding and the driver\<close>

lemma randomSeed_cols:
  fixes rnd :: "nat \<Rightarrow> int" and k0 :: nat
  assumes "wf_board (m CurrentGen)" and "i < nat ROW"
  defines "res \<equiv> for_loop 0 (nat COL) (\<lambda>j. randomSeed_cell rnd i j) (m, k0)"
  shows "snd res = k0 + nat COL \<and> wf_board (fst res CurrentGen) \<and> fst res NextGen = m NextGen
       \<and> (\<forall>i' j'. i' < nat ROW \<longrightarrow> j' < nat COL \<longrightarrow>
            fst res CurrentGen ! i' ! j' =
              (if i' = i then rnd (k0 + j') smod 2 else m CurrentGen ! i' ! j'))"
proof -
  let ?P = "\<lambda>j (t, k). k = k0 + j \<and> wf_board (t CurrentGen) \<and> t NextGen = m NextGen
     \<and> (\<forall>i' j'. i' < nat ROW \<longrightarrow> j' < nat COL \<longrightarrow>
          t CurrentGen ! i' ! j' =
            (if i' = i \<and> j' < j then rnd (k0 + j') smod 2 else m CurrentGen ! i' ! j'))"
  have "?P (nat COL) res"
    unfolding res_def
  proof (rule for_loop_invariant [where P = ?P])
    show "?P 0 (m, k0)" using assms(1) by simp
    show "0 \<le> nat COL" by simp
  next
    fix j tk
    assume j: "j < nat COL" and tk: "?P j tk"
    obtain t k where [simp]: "tk = (t, k)" by (cases tk)
    have nth: "store t CurrentGen i j v CurrentGen ! i' ! j' =
            (if i' = i \<and> j' = j then v else t CurrentGen ! i' ! j')"
      if "i' < nat ROW" "j' < nat COL" for i' j' v
      using that tk by (intro store_nth) (simp_all add: wf_board_length wf_board_row)
    show "?P (Suc j) (randomSeed_cell rnd i j tk)"
      using tk j by (auto simp: randomSeed_cell_def store_other wf_board_store nth less_Suc_eq)
  qed
  then show ?thesis
    using assms(2) by (simp add: case_prod_unfold)
qed

lemma randomSeed_rows:
  fixes rnd :: "nat \<Rightarrow> int"
  assumes "wf_board (m CurrentGen)"
  defines "res \<equiv> for_loop 0 (nat ROW)
      (\<lambda>i. for_loop 0 (nat COL) (\<lambda>j. randomSeed_cell rnd i j)) (m, 0)"
  shows "wf_board (fst res CurrentGen) \<and> fst res NextGen = m NextGen
       \<and> (\<forall>i j. i < nat ROW \<longrightarrow> j < nat COL \<longrightarrow>
            fst res CurrentGen ! i ! j = rnd (i * nat COL + j) smod 2)"
proof -
  let ?Q = "\<lambda>i tk. snd tk = i * nat COL \<and> wf_board (fst tk CurrentGen)
     \<and> fst tk NextGen = m NextGen
     \<and> (\<forall>i' j'. i' < nat ROW \<longrightarrow> j' < nat COL \<longrightarrow>
          fst tk CurrentGen ! i' ! j' =
            (if i' < i then rnd (i' * nat COL + j') smod 2 else m CurrentGen ! i' ! j'))"
  have "?Q (nat ROW) res"
    unfolding res_def
  proof (rule for_loop_invariant [where P = ?Q])
    show "?Q 0 (m, 0)" using assms(1) by simp
    show "0 \<le> nat ROW" by simp
  next
    fix i tk
    assume i: "i < nat ROW" and tk: "?Q i tk"
    obtain t k where tk_eq: "tk = (t, k)" by (cases tk)
    from tk have k: "k = i * nat COL" and w: "wf_board (t CurrentGen)"
      by (simp_all add: tk_eq)
    note c = randomSeed_cols [where m = t and i = i and rnd = rnd and ?k0.0 = "i * nat COL",
        OF w i]
    show "?Q (Suc i) (for_loop 0 (nat COL) (\<lambda>j. randomSeed_cell rnd i j) tk)"
      unfolding tk_eq k using c tk [unfolded tk_eq k] by (auto simp: less_Suc_eq)
  qed
  then show ?thesis
    by simp
qed

lemma wf_seed_board: "wf_board (seed_board rnd)"
  by (simp add: seed_board_def wf_board_def list_all_length)

lemma seed_board_nth:
  "i < nat ROW \<Longrightarrow> j < nat COL \<Longrightarrow> seed_board rnd ! i ! j = rnd (i * nat COL + j) smod 2"
  by (simp add: seed_board_def)

lemma randomSeed_eq:
  assumes "wf_board (m CurrentGen)"
  shows "randomSeed rnd m = m(CurrentGen := seed_board rnd)"
proof
  fix p
  note r = randomSeed_rows [where m = m and rnd = rnd, OF assms, folded randomSeed_def]
  show "randomSeed rnd m p = (m(CurrentGen := seed_board rnd)) p"
  proof (cases p)
    case CurrentGen
    have "randomSeed rnd m CurrentGen = seed_board rnd"
      using r by (intro wf_board_eqI) (simp_all add: wf_seed_board seed_board_nth)
    then show ?thesis using CurrentGen by simp
  next
    case NextGen
    then show ?thesis using r by simp
  qed
qed

lemma smod_2_two_valued: "0 \<le> (x::int) \<Longrightarrow> x smod 2 = 0 \<or> x smod 2 = 1"
  by (cases "x = 0") (auto simp: smod_int_alt_def sgn_if)

lemma two_valued_seed_board: "\<forall>k. 0 \<le> rnd k \<Longrightarrow> two_valued (seed_board rnd)"
  by (simp add: two_valued_def seed_board_def list_all_length smod_2_two_valued)

lemma two_valued_next_board: "two_valued (next_board G)"
  by (simp add: two_valued_def next_board_def next_cell_def list_all_length Let_def)

lemma two_valued_zero_board: "two_valued zero_board"
  by (simp add: two_valued_def zero_board_def list_all_length)

lemma loop_body_eq:
  assumes "wf_board (mem s CurrentGen)" and "wf_board (mem s NextGen)"
  shows "loop_body s c =
     (let N = next_board (mem s CurrentGen);
          s3 = s\<lparr>mem := (mem s)(NextGen := N),
                 console := console s @ [Printed (generationCounter s) N, Prompt],
                 generationCounter := generationCounter s + 1\<rparr>
      in if c = CHR ''q'' \<or> c = CHR ''Q'' then UserQuit s3
         else if mem s CurrentGen = N then Stable (s3\<lparr>console := console s3 @ [StillLife]\<rparr>)
         else Running (s3\<lparr>mem := (mem s)(CurrentGen := N, NextGen := zero_board)\<rparr>))"
proof -
  have ne: "CurrentGen \<noteq> NextGen" by simp
  have mk: "makeCurrentGenSameAsNextGen CurrentGen NextGen ROW
              ((mem s)(NextGen := next_board (mem s CurrentGen))) =
            Some ((mem s)(CurrentGen := next_board (mem s CurrentGen), NextGen := zero_board))"
    using makeCurrentGenSameAsNextGen_eq
      [where m = "(mem s)(NextGen := next_board (mem s CurrentGen))", OF ne]
    by (simp add: assms wf_next_board)
  show ?thesis
    unfolding loop_body_def
    by (simp add: Let_def computeNextGeneration_eq assms print_generation_def printBoard_def
        generationsAreIdentical_wf wf_next_board mk)
qed

subsection \<open>Facts about the run that starts from the block\<close>

lemma seed_board_block: "seed_board block_rnd = block_board"
  by (simp add: seed_board_def block_rnd_def block_board_def ROW_def COL_def upt_rec
      smod_int_alt_def)

lemma block_state_simps:
  "mem block_state = block_mem" "generationCounter block_state = 2"
  by (simp_all add: block_state_def)

lemma main_start_block: "main_start block_rnd junk_mem = block_state"
proof -
  have "junk_mem(CurrentGen := block_board) = block_mem"
    by (rule ext) (simp add: junk_mem_def block_mem_def split: buffer.split)
  moreover have "randomSeed block_rnd junk_mem = junk_mem(CurrentGen := block_board)"
    by (simp add: randomSeed_eq junk_mem_def wf_junk_board seed_board_block)
  ultimately have "randomSeed block_rnd junk_mem = block_mem"
    by simp
  then show ?thesis
    by (simp add: main_start_def print_generation_def printBoard_def block_state_def block_mem_simps)
qed

lemma computeNextGeneration_block: "computeNextGeneration block_mem NextGen = block_board"
  by (simp add: computeNextGeneration_eq block_mem_simps wf_junk_board next_board_block)

lemma generationsAreIdentical_block:
  "generationsAreIdentical (mem block_state CurrentGen)
     (computeNextGeneration (mem block_state) NextGen) ROW = Some True"
  by (simp add: block_state_simps block_mem_simps computeNextGeneration_block
      generationsAreIdentical_wf wf_block_board)

lemma loop_body_block_state:
  "loop_body block_state c =
     (if c = CHR ''q'' \<or> c = CHR ''Q''
      then UserQuit \<lparr>mem = block_mem(NextGen := block_board), generationCounter = 3,
             console = [Printed 1 block_board, Printed 2 block_board, Prompt]\<rparr>
      else Stable \<lparr>mem = block_mem(NextGen := block_board), generationCounter = 3,
             console = [Printed 1 block_board, Printed 2 block_board, Prompt, StillLife]\<rparr>)"
  by (simp add: loop_body_eq block_state_def block_mem_simps wf_block_board wf_junk_board
      next_board_block Let_def)

lemma dented_state_simps:
  "mem dented_state CurrentGen = dented_board" "mem dented_state NextGen = junk_board"
  "generationCounter dented_state = 2"
  by (simp_all add: dented_state_def dented_mem_def)

lemma next_board_dented:
  "next_board dented_board =
     [[1, 0, 1, 0], [1, 0, 1, 0], [1, 0, 0, 0], [0, 0, 0, 0], [0, 0, 0, 0]]"
  by (simp add: next_board_def next_cell_def countNeighbors_def countNeighbors_run_eq around_def
        isSafe_def dented_board_def ROW_def COL_def upt_rec)

lemma computeNextGeneration_dented:
  "computeNextGeneration (mem dented_state) NextGen =
     [[1, 0, 1, 0], [1, 0, 1, 0], [1, 0, 0, 0], [0, 0, 0, 0], [0, 0, 0, 0]]"
  by (simp add: computeNextGeneration_eq dented_state_simps wf_junk_board next_board_dented)

lemma generationsAreIdentical_dented:
  "generationsAreIdentical (mem dented_state CurrentGen)
     (computeNextGeneration (mem dented_state) NextGen) ROW = Some False"
proof -
  have "wf_board (next_board dented_board)"
    by (rule wf_next_board)
  moreover have "dented_board \<noteq> next_board dented_board"
    by (simp add: next_board_dented) (simp add: dented_board_def)
  ultimately show ?thesis
    by (simp add: computeNextGeneration_dented next_board_dented [symmetric] dented_state_simps
        generationsAreIdentical_wf wf_dented_board)
qed

subsection \<open>Facts about runs of the driver\<close>

lemma run_keys_two_valued:
  assumes "wf_board (mem s CurrentGen)" and "wf_board (mem s NextGen)"
    and "two_valued (mem s CurrentGen)"
  shows "case run_keys s keys of
           Running s' \<Rightarrow> two_valued (mem s' CurrentGen) \<and> (keys = [] \<or> two_valued (mem s' NextGen))
         | UserQuit s' \<Rightarrow> two_valued (mem s' CurrentGen) \<and> two_valued (mem s' NextGen)
         | Stable s' \<Rightarrow> two_valued (mem s' CurrentGen) \<and> two_valued (mem s' NextGen)
         | Undefined \<Rightarrow> False"
  using assms
proof (induction keys arbitrary: s)
  case Nil
  then show ?case by simp
next
  case (Cons c cs)
  let ?N = "next_board (mem s CurrentGen)"
  note b = loop_body_eq [OF Cons.prems(1,2), of c, unfolded Let_def]
  consider (quit) "c = CHR ''q'' \<or> c = CHR ''Q''"
    | (stable) "\<not> (c = CHR ''q'' \<or> c = CHR ''Q'')" "mem s CurrentGen = ?N"
    | (go) "\<not> (c = CHR ''q'' \<or> c = CHR ''Q'')" "mem s CurrentGen \<noteq> ?N"
    by blast
  then show ?case
  proof cases
    case quit
    then show ?thesis
      using b Cons.prems(3) by (simp add: two_valued_next_board)
  next
    case stable
    then show ?thesis
      using b Cons.prems(3) by (simp add: two_valued_next_board)
  next
    case go
    define s' where "s' = s\<lparr>mem := (mem s)(NextGen := ?N),
        console := console s @ [Printed (generationCounter s) ?N, Prompt],
        generationCounter := generationCounter s + 1,
        mem := (mem s)(CurrentGen := ?N, NextGen := zero_board)\<rparr>"
    have r: "loop_body s c = Running s'"
      using b go by (simp add: s'_def)
    have s': "wf_board (mem s' CurrentGen)" "wf_board (mem s' NextGen)"
      "two_valued (mem s' CurrentGen)" "two_valued (mem s' NextGen)"
      by (simp_all add: s'_def wf_next_board wf_zero_board two_valued_next_board
          two_valued_zero_board)
    from Cons.IH [OF s'(1-3)] s'(4) show ?thesis
      by (cases cs) (auto simp: r split: outcome.splits)
  qed
qed

lemma run_keys_block: "run_keys block_state [CHR ''n''] =
   Stable \<lparr>mem = block_mem(NextGen := block_board), generationCounter = 3,
           console = [Printed 1 block_board, Printed 2 block_board, Prompt, StillLife]\<rparr>"
  by (simp add: loop_body_block_state)

subsection \<open>Neighbour counting stays inside the board\<close>

text \<open>
  Claim C2. For a board of the program's dimensions and a position inside it,
  \<open>countNeighbors\<close> computes exactly the eight positions at the offsets
  \<open>(-1,-1), (-1,0), (-1,1), (0,-1), (0,1), (1,-1), (1,0), (1,1)\<close>, each once; it reads the
  board at exactly those of them that lie in \<open>[0, ROW) \<times> [0, COL)\<close>, all of which exist in
  the array (the others are skipped, and no coordinate is wrapped around); and its result
  lies between 0 and 8 and is the number of those in-bounds positions that hold 1.
\<close>

theorem countNeighbors_in_bounds_count:
  assumes "wf_board board" and "0 \<le> r \<and> r < ROW" and "0 \<le> c \<and> c < COL"
  shows "let run = countNeighbors_run board r c;
             N = (\<lambda>(dr, dc). (r + dr, c + dc)) `
                   {(-1, -1), (-1, 0), (-1, 1), (0, -1), (0, 1), (1, -1), (1, 0), (1, 1)}
         in distinct (examined run) \<and> set (examined run) = N
          \<and> set (reads run) = {(x, y). (x, y) \<in> N \<and> 0 \<le> x \<and> x < ROW \<and> 0 \<le> y \<and> y < COL}
          \<and> (\<forall>(x, y) \<in> set (reads run).
                0 \<le> x \<and> x < ROW \<and> 0 \<le> y \<and> y < COL
              \<and> nat x < length board \<and> nat y < length (board ! nat x))
          \<and> 0 \<le> countNeighbors board r c \<and> countNeighbors board r c \<le> 8
          \<and> countNeighbors board r c =
              int (card {(x, y). (x, y) \<in> N \<and> 0 \<le> x \<and> x < ROW \<and> 0 \<le> y \<and> y < COL
                                 \<and> board ! nat x ! nat y = 1})"
proof -
  let ?N = "(\<lambda>(dr, dc). (r + dr, c + dc)) `
              {(-1, -1), (-1, 0), (-1, 1), (0, -1), (0, 1), (1, -1), (1, 0), (1, 1)}"
  let ?run = "countNeighbors_run board r c"
  let ?alive = "\<lambda>(x, y). isSafe board x y \<and> board ! nat x ! nat y = 1"
  have ex: "examined ?run = around r c"
    by (simp add: countNeighbors_run_eq)
  have rd: "reads ?run = filter (\<lambda>(x, y). isSafe board x y) (around r c)"
    by (simp add: countNeighbors_run_eq)
  have cn: "countNeighbors board r c = int (length (filter ?alive (around r c)))"
    by (simp add: countNeighbors_def countNeighbors_run_eq)
  have N: "set (around r c) = ?N"
    by (rule set_around)
  have 1: "distinct (examined ?run)"
    by (simp add: ex distinct_around)
  have 2: "set (examined ?run) = ?N"
    by (simp add: ex N)
  have 3: "set (reads ?run) = {(x, y). (x, y) \<in> ?N \<and> 0 \<le> x \<and> x < ROW \<and> 0 \<le> y \<and> y < COL}"
    unfolding rd N [symmetric] by (auto simp: isSafe_def)
  have 4: "\<forall>(x, y) \<in> set (reads ?run).
             0 \<le> x \<and> x < ROW \<and> 0 \<le> y \<and> y < COL
           \<and> nat x < length board \<and> nat y < length (board ! nat x)"
    unfolding rd using wf_board_nth [OF assms(1)] by (auto simp: isSafe_def)
  have "length (filter ?alive (around r c)) \<le> 8"
    using length_filter_le [of ?alive "around r c"] by (simp add: length_around)
  then have 5: "0 \<le> countNeighbors board r c \<and> countNeighbors board r c \<le> 8"
    by (simp add: cn)
  have "{(x, y). (x, y) \<in> ?N \<and> 0 \<le> x \<and> x < ROW \<and> 0 \<le> y \<and> y < COL \<and> board ! nat x ! nat y = 1}
          = set (filter ?alive (around r c))"
    unfolding N [symmetric] by (auto simp: isSafe_def)
  moreover have "card (set (filter ?alive (around r c))) = length (filter ?alive (around r c))"
    by (rule distinct_card) (simp add: distinct_around)
  ultimately have 6: "countNeighbors board r c =
      int (card {(x, y). (x, y) \<in> ?N \<and> 0 \<le> x \<and> x < ROW \<and> 0 \<le> y \<and> y < COL
                         \<and> board ! nat x ! nat y = 1})"
    by (simp add: cn)
  show ?thesis
    unfolding Let_def using 1 2 3 4 5 6 by blast
qed

theorem countNeighbors_in_bounds_count_witness:
  "wf_board block_board \<and> (0::int) \<le> 0 \<and> 0 < ROW \<and> (0::int) \<le> 0 \<and> 0 < COL
   \<and> distinct (examined (countNeighbors_run block_board 0 0))
   \<and> examined (countNeighbors_run block_board 0 0) =
       [(-1, -1), (-1, 1), (-1, 0), (0, -1), (1, -1), (0, 1), (1, 0), (1, 1)]
   \<and> reads (countNeighbors_run block_board 0 0) = [(0, 1), (1, 0), (1, 1)]
   \<and> 0 \<le> countNeighbors block_board 0 0
   \<and> countNeighbors block_board 0 0 \<le> 8
   \<and> countNeighbors block_board 0 0 = 3"
proof -
  have r: "(0::int) \<le> 0 \<and> 0 < ROW" and c: "(0::int) \<le> 0 \<and> 0 < COL"
    by (simp_all add: ROW_def COL_def)
  note t = countNeighbors_in_bounds_count [OF wf_block_board r c, unfolded Let_def]
  from t have 1: "distinct (examined (countNeighbors_run block_board 0 0))"
    by (elim conjE)
  from t have 2: "0 \<le> countNeighbors block_board 0 0"
    by (elim conjE)
  from t have 6: "countNeighbors block_board 0 0 \<le> 8"
    by (elim conjE)
  have 3: "examined (countNeighbors_run block_board 0 0) =
       [(-1, -1), (-1, 1), (-1, 0), (0, -1), (1, -1), (0, 1), (1, 0), (1, 1)]"
    by (simp add: countNeighbors_run_eq around_def)
  have 4: "reads (countNeighbors_run block_board 0 0) = [(0, 1), (1, 0), (1, 1)]"
    by (simp add: countNeighbors_run_eq around_def isSafe_def ROW_def COL_def)
  have 5: "countNeighbors block_board 0 0 = 3"
    by (simp add: countNeighbors_def countNeighbors_run_eq around_def isSafe_def
        block_board_def ROW_def COL_def)
  show ?thesis
    using wf_block_board r c 1 2 3 4 5 6 by blast
qed

subsection \<open>The transition rule\<close>

text \<open>
  Claim C1. For arrays of the program's dimensions and every cell \<open>(i, j)\<close> inside them, the
  value written to \<^verbatim>\<open>nextGen[i][j]\<close> follows the rule of the game with
  \<open>n = countNeighbors currentGen i j\<close>: a live cell (value 1) with \<open>n < 2\<close> becomes 0, a live
  cell with \<open>n = 2\<close> or \<open>n = 3\<close> becomes 1, a live cell with \<open>n > 3\<close> becomes 0, a dead cell
  with \<open>n = 3\<close> becomes 1, and a dead cell with \<open>n \<noteq> 3\<close> becomes 0. The program treats
  every value other than 1 as dead, which includes the value 0.
\<close>

theorem next_generation_follows_rule:
  assumes "wf_board (m CurrentGen)" and "wf_board (m NextGen)"
    and "i < nat ROW" and "j < nat COL"
  shows "let G = m CurrentGen;
             n = countNeighbors G (int i) (int j);
             v = computeNextGeneration m NextGen ! i ! j
         in (G ! i ! j = 1 \<and> n < 2 \<longrightarrow> v = 0)
          \<and> (G ! i ! j = 1 \<and> (n = 2 \<or> n = 3) \<longrightarrow> v = 1)
          \<and> (G ! i ! j = 1 \<and> n > 3 \<longrightarrow> v = 0)
          \<and> (G ! i ! j \<noteq> 1 \<and> n = 3 \<longrightarrow> v = 1)
          \<and> (G ! i ! j \<noteq> 1 \<and> n \<noteq> 3 \<longrightarrow> v = 0)"
proof -
  have "computeNextGeneration m NextGen ! i ! j = next_cell (m CurrentGen) i j"
    using assms(2-4) by (rule computeNextGeneration_cells(3) [where m = m])
  then show ?thesis
    by (simp add: Let_def next_cell_def)
qed

theorem next_generation_follows_rule_witness:
  "wf_board (dented_mem CurrentGen) \<and> wf_board (dented_mem NextGen)
   \<and> (3::nat) < nat ROW \<and> (3::nat) < nat COL
   \<and> dented_mem CurrentGen ! 3 ! 0 = 1 \<and> countNeighbors (dented_mem CurrentGen) 3 0 = 0
   \<and> computeNextGeneration dented_mem NextGen ! 3 ! 0 = 0
   \<and> dented_mem CurrentGen ! 0 ! 0 = 1 \<and> countNeighbors (dented_mem CurrentGen) 0 0 = 3
   \<and> computeNextGeneration dented_mem NextGen ! 0 ! 0 = 1
   \<and> dented_mem CurrentGen ! 0 ! 1 = 1 \<and> countNeighbors (dented_mem CurrentGen) 0 1 = 4
   \<and> computeNextGeneration dented_mem NextGen ! 0 ! 1 = 0
   \<and> dented_mem CurrentGen ! 0 ! 2 = 0 \<and> countNeighbors (dented_mem CurrentGen) 0 2 = 3
   \<and> computeNextGeneration dented_mem NextGen ! 0 ! 2 = 1
   \<and> dented_mem CurrentGen ! 0 ! 3 = 0 \<and> countNeighbors (dented_mem CurrentGen) 0 3 = 1
   \<and> computeNextGeneration dented_mem NextGen ! 0 ! 3 = 0"
proof -
  have w: "wf_board (dented_mem CurrentGen)" "wf_board (dented_mem NextGen)"
    by (simp_all add: dented_mem_simps wf_dented_board wf_junk_board)
  have b: "(3::nat) < nat ROW" "(3::nat) < nat COL" "(0::nat) < nat ROW" "(0::nat) < nat COL"
    "(1::nat) < nat COL" "(2::nat) < nat COL"
    by (simp_all add: ROW_def COL_def)
  have c: "dented_mem CurrentGen ! 3 ! 0 = 1" "dented_mem CurrentGen ! 0 ! 0 = 1"
    "dented_mem CurrentGen ! 0 ! 1 = 1" "dented_mem CurrentGen ! 0 ! 2 = 0"
    "dented_mem CurrentGen ! 0 ! 3 = 0"
    by (simp_all add: dented_mem_simps dented_board_def)
  have n: "countNeighbors (dented_mem CurrentGen) 3 0 = 0"
    "countNeighbors (dented_mem CurrentGen) 0 0 = 3"
    "countNeighbors (dented_mem CurrentGen) 0 1 = 4"
    "countNeighbors (dented_mem CurrentGen) 0 2 = 3"
    "countNeighbors (dented_mem CurrentGen) 0 3 = 1"
    by (simp_all add: dented_mem_simps countNeighbors_dented)
  have 1: "computeNextGeneration dented_mem NextGen ! 3 ! 0 = 0"
    using next_generation_follows_rule [OF w b(1) b(4), unfolded Let_def] c n by simp
  have 2: "computeNextGeneration dented_mem NextGen ! 0 ! 0 = 1"
    using next_generation_follows_rule [OF w b(3) b(4), unfolded Let_def] c n by simp
  have 3: "computeNextGeneration dented_mem NextGen ! 0 ! 1 = 0"
    using next_generation_follows_rule [OF w b(3) b(5), unfolded Let_def] c n by simp
  have 4: "computeNextGeneration dented_mem NextGen ! 0 ! 2 = 1"
    using next_generation_follows_rule [OF w b(3) b(6), unfolded Let_def] c n by simp
  have 5: "computeNextGeneration dented_mem NextGen ! 0 ! 3 = 0"
    using next_generation_follows_rule [OF w b(3) b(2), unfolded Let_def] c n by simp
  show ?thesis
    using w b(1,2) c n 1 2 3 4 5 by simp
qed

subsection \<open>One pass of the driver\<close>

text \<open>
  Claim C3 says that a pass first tests whether the next generation equals the current
  one and only then looks at the key. The program does it the other way round: the test
  \<^verbatim>\<open>if (c == 'q' || c == 'Q') break;\<close> precedes the call of \<^verbatim>\<open>generationsAreIdentical\<close>. In
  the run below the seeding produces the block, a still life; the user types \<open>q\<close>; the pass
  ends through the first \<^verbatim>\<open>break\<close>, as a quit and not as a stable state, although the next
  generation equals the current one.
\<close>

theorem stability_not_checked_before_quit:
  "main_start block_rnd junk_mem = block_state
   \<and> generationsAreIdentical (mem block_state CurrentGen)
        (computeNextGeneration (mem block_state) NextGen) ROW = Some True
   \<and> is_UserQuit (loop_body block_state (CHR ''q''))
   \<and> \<not> is_Stable (loop_body block_state (CHR ''q''))"
proof -
  note g = generationsAreIdentical_block
  show ?thesis
    using g main_start_block by (simp add: loop_body_block_state)
qed

text \<open>
  Claim C3, amended. In each pass, after the next generation has been computed, the key
  is tested first: on \<open>q\<close> or \<open>Q\<close> the run ends as a quit. Only otherwise the two generations
  are compared: if they are identical the run ends as stable; and otherwise the current
  generation becomes the next one, the generation counter has grown by one, and the run
  stays in its loop. The comparison itself always returns an answer.
\<close>

theorem loop_body_quit_then_stability:
  assumes "wf_board (mem s CurrentGen)" and "wf_board (mem s NextGen)"
  shows "let next = computeNextGeneration (mem s) NextGen;
             quit = (c = CHR ''q'' \<or> c = CHR ''Q'')
         in \<exists>same. generationsAreIdentical (mem s CurrentGen) next ROW = Some same
              \<and> (quit \<longrightarrow> is_UserQuit (loop_body s c))
              \<and> (\<not> quit \<and> same \<longrightarrow> is_Stable (loop_body s c))
              \<and> (\<not> quit \<and> \<not> same \<longrightarrow>
                    (\<exists>s'. loop_body s c = Running s' \<and> mem s' CurrentGen = next
                          \<and> generationCounter s' = generationCounter s + 1))"
proof -
  have n: "computeNextGeneration (mem s) NextGen = next_board (mem s CurrentGen)"
    by (simp add: computeNextGeneration_eq assms)
  have g: "generationsAreIdentical (mem s CurrentGen) (next_board (mem s CurrentGen)) ROW =
             Some (mem s CurrentGen = next_board (mem s CurrentGen))"
    by (simp add: generationsAreIdentical_wf assms wf_next_board)
  show ?thesis
    unfolding Let_def n g by (simp add: loop_body_eq [OF assms] Let_def)
qed

theorem loop_body_quit_then_stability_witness:
  "wf_board (mem block_state CurrentGen) \<and> wf_board (mem block_state NextGen)
   \<and> generationsAreIdentical (mem block_state CurrentGen)
        (computeNextGeneration (mem block_state) NextGen) ROW = Some True
   \<and> is_UserQuit (loop_body block_state (CHR ''Q''))
   \<and> is_Stable (loop_body block_state (CHR ''n''))
   \<and> wf_board (mem dented_state CurrentGen) \<and> wf_board (mem dented_state NextGen)
   \<and> generationsAreIdentical (mem dented_state CurrentGen)
        (computeNextGeneration (mem dented_state) NextGen) ROW = Some False
   \<and> is_Running (loop_body dented_state (CHR ''n''))"
proof -
  have h: "wf_board (mem block_state CurrentGen)" "wf_board (mem block_state NextGen)"
    by (simp_all add: block_state_simps block_mem_simps wf_block_board wf_junk_board)
  have d: "wf_board (mem dented_state CurrentGen)" "wf_board (mem dented_state NextGen)"
    by (simp_all add: dented_state_simps wf_dented_board wf_junk_board)
  note g = generationsAreIdentical_block
  note f = generationsAreIdentical_dented
  have q: "is_UserQuit (loop_body block_state (CHR ''Q''))"
    using loop_body_quit_then_stability [OF h, of "CHR ''Q''", unfolded Let_def] by auto
  have s: "is_Stable (loop_body block_state (CHR ''n''))"
    using loop_body_quit_then_stability [OF h, of "CHR ''n''", unfolded Let_def] g by auto
  have r: "is_Running (loop_body dented_state (CHR ''n''))"
    using loop_body_quit_then_stability [OF d, of "CHR ''n''", unfolded Let_def] f by auto
  show ?thesis
    using h d g f q s r by simp
qed

subsection \<open>What the comparison decides, and how far it looks\<close>

text \<open>
  Claim C4. For two arrays of the program's dimensions, \<open>generationsAreIdentical\<close> called with
  all \<open>ROW\<close> rows returns true exactly when every pair of corresponding cells is equal
  (that is, when the two boards are equal). It compares the cells row by row from the
  first one and stops at the first pair that differs: the positions compared are the
  positions before the first mismatch followed by that mismatch, and all positions when
  there is none.
\<close>

theorem generationsAreIdentical_iff_cells_equal:
  assumes "wf_board A" and "wf_board B"
  shows "let same = (\<lambda>(i, j). A ! i ! j = B ! i ! j);
             cells = List.product [0..<nat ROW] [0..<nat COL]
         in generationsAreIdentical A B ROW = Some (\<forall>i<nat ROW. \<forall>j<nat COL. A ! i ! j = B ! i ! j)
          \<and> (generationsAreIdentical A B ROW = Some True \<longleftrightarrow> A = B)
          \<and> map_option snd (generationsAreIdentical_run A B ROW) =
              Some (takeWhile same cells @ take 1 (dropWhile same cells))"
proof -
  have "map_option snd (generationsAreIdentical_run A B ROW) =
          Some (until_first_failure (same_at A B) all_cells)"
    by (simp add: generationsAreIdentical_run_eq)
  then have "map_option snd (generationsAreIdentical_run A B ROW) =
          Some (takeWhile (\<lambda>(i, j). A ! i ! j = B ! i ! j) (List.product [0..<nat ROW] [0..<nat COL])
                @ take 1 (dropWhile (\<lambda>(i, j). A ! i ! j = B ! i ! j)
                            (List.product [0..<nat ROW] [0..<nat COL])))"
    by (simp add: until_first_failure_def same_at_def all_cells_def)
  moreover have "generationsAreIdentical A B ROW = Some True \<longleftrightarrow> A = B"
    by (simp add: generationsAreIdentical_wf [OF assms])
  ultimately show ?thesis
    unfolding Let_def using generationsAreIdentical_eq [of A B] by blast
qed

theorem generationsAreIdentical_iff_cells_equal_witness:
  "wf_board block_board \<and> wf_board dented_board
   \<and> generationsAreIdentical block_board dented_board ROW = Some False
   \<and> map_option snd (generationsAreIdentical_run block_board dented_board ROW) =
       Some [(0, 0), (0, 1), (0, 2), (0, 3), (1, 0), (1, 1), (1, 2)]"
proof -
  note t = generationsAreIdentical_iff_cells_equal [OF wf_block_board wf_dented_board,
      unfolded Let_def]
  have ne: "block_board \<noteq> dented_board"
    by (simp add: block_board_def dented_board_def)
  from t have e: "generationsAreIdentical block_board dented_board ROW =
      Some (\<forall>i<nat ROW. \<forall>j<nat COL. block_board ! i ! j = dented_board ! i ! j)"
    by (elim conjE)
  from t have "generationsAreIdentical block_board dented_board ROW = Some True
      \<longleftrightarrow> block_board = dented_board"
    by (elim conjE)
  with ne have "generationsAreIdentical block_board dented_board ROW \<noteq> Some True"
    by simp
  with e have "\<not> (\<forall>i<nat ROW. \<forall>j<nat COL. block_board ! i ! j = dented_board ! i ! j)"
    by auto
  with e have 1: "generationsAreIdentical block_board dented_board ROW = Some False"
    by simp
  from t have "map_option snd (generationsAreIdentical_run block_board dented_board ROW) =
      Some (takeWhile (\<lambda>(i, j). block_board ! i ! j = dented_board ! i ! j)
              (List.product [0..<nat ROW] [0..<nat COL])
            @ take 1 (dropWhile (\<lambda>(i, j). block_board ! i ! j = dented_board ! i ! j)
                        (List.product [0..<nat ROW] [0..<nat COL])))"
    by (elim conjE)
  then have 2: "map_option snd (generationsAreIdentical_run block_board dented_board ROW) =
       Some [(0, 0), (0, 1), (0, 2), (0, 3), (1, 0), (1, 1), (1, 2)]"
    by (simp add: all_cells_eq [unfolded all_cells_def] block_board_def dented_board_def)
  show ?thesis
    using wf_block_board wf_dented_board 1 2 by simp
qed

subsection \<open>Cells hold 0 or 1\<close>

text \<open>
  Claim C5. Every cell of every grid of the simulation holds 0 or 1. The seeding leaves
  only 0 and 1 in \<^verbatim>\<open>currentGen\<close> (\<^verbatim>\<open>rand\<close> returns no negative number); computing the next
  generation leaves only 0 and 1 in \<^verbatim>\<open>nextGen\<close>, whatever both arrays held before; and after
  any number of passes of the driver, whether the run is still in its loop or has ended,
  \<^verbatim>\<open>currentGen\<close> holds only 0 and 1, and so does \<^verbatim>\<open>nextGen\<close> once the first pass has written
  it. No pass runs into undefined behaviour.
\<close>

theorem cells_always_two_valued:
  assumes "wf_board (m0 CurrentGen)" and "wf_board (m0 NextGen)" and "\<forall>k. 0 \<le> rnd k"
  shows "two_valued (randomSeed rnd m0 CurrentGen)
       \<and> two_valued (computeNextGeneration m0 NextGen)
       \<and> (case run_keys (main_start rnd m0) keys of
             Running s \<Rightarrow> two_valued (mem s CurrentGen) \<and> (keys = [] \<or> two_valued (mem s NextGen))
           | UserQuit s \<Rightarrow> two_valued (mem s CurrentGen) \<and> two_valued (mem s NextGen)
           | Stable s \<Rightarrow> two_valued (mem s CurrentGen) \<and> two_valued (mem s NextGen)
           | Undefined \<Rightarrow> False)"
proof -
  have seed: "randomSeed rnd m0 = m0(CurrentGen := seed_board rnd)"
    using assms(1) by (rule randomSeed_eq)
  have 1: "two_valued (randomSeed rnd m0 CurrentGen)"
    using assms(3) by (simp add: seed two_valued_seed_board)
  have 2: "two_valued (computeNextGeneration m0 NextGen)"
    using assms(2) by (simp add: computeNextGeneration_eq two_valued_next_board)
  have "wf_board (mem (main_start rnd m0) CurrentGen)" "wf_board (mem (main_start rnd m0) NextGen)"
    "two_valued (mem (main_start rnd m0) CurrentGen)"
    using assms by (simp_all add: main_start_def print_generation_def printBoard_def seed wf_seed_board
        two_valued_seed_board)
  then have 3: "case run_keys (main_start rnd m0) keys of
             Running s \<Rightarrow> two_valued (mem s CurrentGen) \<and> (keys = [] \<or> two_valued (mem s NextGen))
           | UserQuit s \<Rightarrow> two_valued (mem s CurrentGen) \<and> two_valued (mem s NextGen)
           | Stable s \<Rightarrow> two_valued (mem s CurrentGen) \<and> two_valued (mem s NextGen)
           | Undefined \<Rightarrow> False"
    by (rule run_keys_two_valued)
  show ?thesis
    using 1 2 3 by blast
qed

theorem cells_always_two_valued_witness:
  "wf_board (junk_mem CurrentGen) \<and> wf_board (junk_mem NextGen) \<and> (\<forall>k. 0 \<le> block_rnd k)
   \<and> two_valued (randomSeed block_rnd junk_mem CurrentGen)
   \<and> two_valued (computeNextGeneration junk_mem NextGen)
   \<and> is_Stable (run_keys (main_start block_rnd junk_mem) [CHR ''n''])
   \<and> two_valued block_board"
proof -
  have h: "wf_board (junk_mem CurrentGen)" "wf_board (junk_mem NextGen)" "\<forall>k. 0 \<le> block_rnd k"
    by (simp_all add: junk_mem_def wf_junk_board block_rnd_def)
  note t = cells_always_two_valued [OF h, of "[CHR ''n'']"]
  have s: "is_Stable (run_keys (main_start block_rnd junk_mem) [CHR ''n''])"
    unfolding main_start_block run_keys_block by simp
  from t have "two_valued ((block_mem(NextGen := block_board)) CurrentGen)"
    unfolding main_start_block run_keys_block by simp
  then have "two_valued block_board"
    by (simp add: block_mem_simps)
  then show ?thesis
    using h t s by simp
qed

subsection \<open>A stable generation stays stable\<close>

text \<open>
  Claim C6. If computing the next generation of a grid \<open>G\<close> gives \<open>G\<close> again, then computing
  the next generation of that result gives \<open>G\<close> as well. The first computation runs in a
  memory \<open>m\<close> whose current generation is \<open>G\<close>, the second in any memory \<open>m'\<close> whose current
  generation is the first result; what the array \<^verbatim>\<open>nextGen\<close> held before either computation
  is arbitrary.
\<close>

theorem stable_generation_stays_stable:
  assumes "wf_board (m NextGen)" and "wf_board (m' NextGen)"
    and "computeNextGeneration m NextGen = m CurrentGen"
    and "m' CurrentGen = computeNextGeneration m NextGen"
  shows "computeNextGeneration m' NextGen = m CurrentGen"
  using assms by (simp add: computeNextGeneration_eq)

theorem stable_generation_stays_stable_witness:
  "wf_board (block_mem NextGen) \<and> wf_board ((computeNextGeneration block_mem) NextGen)
   \<and> computeNextGeneration block_mem NextGen = block_mem CurrentGen
   \<and> computeNextGeneration block_mem CurrentGen = computeNextGeneration block_mem NextGen
   \<and> computeNextGeneration (computeNextGeneration block_mem) NextGen = block_mem CurrentGen"
proof -
  have w: "wf_board (block_mem NextGen)"
    by (simp add: block_mem_simps wf_junk_board)
  have e: "computeNextGeneration block_mem = block_mem(NextGen := block_board)"
    by (simp add: computeNextGeneration_eq wf_junk_board block_mem_simps next_board_block)
  have h: "wf_board ((computeNextGeneration block_mem) NextGen)"
    "computeNextGeneration block_mem NextGen = block_mem CurrentGen"
    "computeNextGeneration block_mem CurrentGen = computeNextGeneration block_mem NextGen"
    by (simp_all add: e block_mem_simps wf_block_board)
  show ?thesis
    using w h stable_generation_stays_stable [OF w h(1) h(2) h(3)] by simp
qed

subsection \<open>The comparison is reflexive and symmetric\<close>

text \<open>
  Claim C7. Comparing an array with itself returns true, and comparing \<open>A\<close> with \<open>B\<close> returns
  what comparing \<open>B\<close> with \<open>A\<close> returns, for arrays of the program's dimensions and all
  \<open>ROW\<close> rows.
\<close>

theorem generationsAreIdentical_reflexive_symmetric:
  assumes "wf_board A" and "wf_board B"
  shows "generationsAreIdentical A A ROW = Some True
       \<and> generationsAreIdentical A B ROW = generationsAreIdentical B A ROW"
proof -
  have "generationsAreIdentical A B ROW = generationsAreIdentical B A ROW"
    by (simp add: generationsAreIdentical_wf assms eq_commute)
  then show ?thesis
    by (simp add: generationsAreIdentical_wf assms)
qed

theorem generationsAreIdentical_reflexive_symmetric_witness:
  "wf_board block_board \<and> wf_board dented_board
   \<and> generationsAreIdentical block_board block_board ROW = Some True
   \<and> generationsAreIdentical block_board dented_board ROW = Some False
   \<and> generationsAreIdentical dented_board block_board ROW = Some False"
proof -
  note t = generationsAreIdentical_reflexive_symmetric [OF wf_block_board wf_dented_board]
  have "dented_board \<noteq> block_board"
    by (simp add: block_board_def dented_board_def)
  then have "generationsAreIdentical dented_board block_board ROW = Some False"
    by (simp add: generationsAreIdentical_wf wf_block_board wf_dented_board)
  then show ?thesis
    using t wf_block_board wf_dented_board by simp
qed

subsection \<open>Dimensions and frame of the computation\<close>

text \<open>
  Claim C8. Computing the next generation fills the array \<^verbatim>\<open>nextGen\<close> with a grid of the same
  dimensions as the current one (\<open>ROW\<close> rows of \<open>COL\<close> cells) and leaves the array
  \<^verbatim>\<open>currentGen\<close> as it was: after both loops, and after every single execution of the loop
  body.
\<close>

theorem next_generation_same_dimensions_input_unchanged:
  assumes "wf_board (m CurrentGen)" and "wf_board (m NextGen)"
  shows "wf_board (computeNextGeneration m NextGen)
       \<and> length (computeNextGeneration m NextGen) = length (m CurrentGen)
       \<and> map length (computeNextGeneration m NextGen) = map length (m CurrentGen)
       \<and> computeNextGeneration m CurrentGen = m CurrentGen
       \<and> nextGen_cell i j m CurrentGen = m CurrentGen"
proof -
  have wf: "wf_board (computeNextGeneration m NextGen)"
    using assms(2) by (rule computeNextGeneration_cells(2) [where m = m])
  have len: "length (computeNextGeneration m NextGen) = length (m CurrentGen)"
    using wf assms(1) by (simp add: wf_board_length)
  have "map length (computeNextGeneration m NextGen) = map length (m CurrentGen)"
    using wf assms(1) len by (intro nth_equalityI) (simp_all add: wf_board_length wf_board_row)
  moreover have "computeNextGeneration m CurrentGen = m CurrentGen"
    using assms(2) by (rule computeNextGeneration_cells(1) [where m = m])
  moreover have "nextGen_cell i j m CurrentGen = m CurrentGen"
    by (simp add: nextGen_cell_eq store_other)
  ultimately show ?thesis
    using wf len by simp
qed

theorem next_generation_same_dimensions_input_unchanged_witness:
  "wf_board (block_mem CurrentGen) \<and> wf_board (block_mem NextGen)
   \<and> wf_board (computeNextGeneration block_mem NextGen)
   \<and> length (computeNextGeneration block_mem NextGen) = 5
   \<and> map length (computeNextGeneration block_mem NextGen) = [4, 4, 4, 4, 4]
   \<and> computeNextGeneration block_mem CurrentGen = block_board"
proof -
  have h: "wf_board (block_mem CurrentGen)" "wf_board (block_mem NextGen)"
    by (simp_all add: block_mem_simps wf_block_board wf_junk_board)
  note t = next_generation_same_dimensions_input_unchanged [OF h, of 0 0]
  have "length (block_mem CurrentGen) = 5" "map length (block_mem CurrentGen) = [4, 4, 4, 4, 4]"
    by (simp_all add: block_mem_simps block_board_def)
  then show ?thesis
    using h t by (simp add: block_mem_simps)
qed

subsection \<open>The next generation depends on the current one only\<close>

text \<open>
  Claim C9. The next generation is a function of the current grid alone: two computations
  that start from equal current grids produce equal next grids, whatever the array
  \<^verbatim>\<open>nextGen\<close> held before. The computation takes no other input: it calls neither \<^verbatim>\<open>rand\<close> nor
  reads the console or the generation counter.
\<close>

theorem next_generation_depends_on_current_only:
  assumes "wf_board (m NextGen)" and "wf_board (m' NextGen)"
    and "m CurrentGen = m' CurrentGen"
  shows "computeNextGeneration m NextGen = computeNextGeneration m' NextGen"
  using assms by (simp add: computeNextGeneration_eq)

theorem next_generation_depends_on_current_only_witness:
  "wf_board (block_mem NextGen) \<and> wf_board ((block_mem(NextGen := block_board)) NextGen)
   \<and> block_mem CurrentGen = (block_mem(NextGen := block_board)) CurrentGen
   \<and> computeNextGeneration block_mem NextGen =
       computeNextGeneration (block_mem(NextGen := block_board)) NextGen"
proof -
  have h: "wf_board (block_mem NextGen)" "wf_board ((block_mem(NextGen := block_board)) NextGen)"
    "block_mem CurrentGen = (block_mem(NextGen := block_board)) CurrentGen"
    by (simp_all add: block_mem_simps wf_block_board wf_junk_board)
  show ?thesis
    using h next_generation_depends_on_current_only [OF h] by blast
qed

subsection \<open>Adopting the next generation copies it and clears it\<close>

text \<open>
  Claim C10. For two arrays \<open>board1\<close> and \<open>board2\<close> of the program's dimensions, whatever they
  hold, \<open>makeCurrentGenSameAsNextGen board1 board2 ROW\<close> completes, and afterwards every cell
  of \<open>board1\<close> holds what \<open>board2\<close> held at that position before the call and every cell of
  \<open>board2\<close> holds 0; no other array changes. The two arguments are two arrays, as in the
  call \<^verbatim>\<open>makeCurrentGenSameAsNextGen(currentGen, nextGen, ROW)\<close> of \<open>main\<close>; their contents may
  be equal.
\<close>

theorem makeCurrentGenSameAsNextGen_copies_and_clears:
  assumes "board1 \<noteq> board2" and "wf_board (m board1)" and "wf_board (m board2)"
  shows "\<exists>m'. makeCurrentGenSameAsNextGen board1 board2 ROW m = Some m'
            \<and> (\<forall>i<nat ROW. \<forall>j<nat COL.
                  m' board1 ! i ! j = m board2 ! i ! j \<and> m' board2 ! i ! j = 0)
            \<and> m' board1 = m board2
            \<and> wf_board (m' board1) \<and> wf_board (m' board2)
            \<and> (\<forall>q. q \<noteq> board1 \<and> q \<noteq> board2 \<longrightarrow> m' q = m q)"
proof -
  have "makeCurrentGenSameAsNextGen board1 board2 ROW m =
          Some (m(board1 := m board2, board2 := zero_board))"
    using assms by (rule makeCurrentGenSameAsNextGen_eq)
  then show ?thesis
    using assms by (simp add: wf_zero_board zero_board_nth)
qed

theorem makeCurrentGenSameAsNextGen_copies_and_clears_witness:
  "NextGen \<noteq> CurrentGen \<and> wf_board (block_mem NextGen) \<and> wf_board (block_mem CurrentGen)
   \<and> map_option (\<lambda>m'. (m' NextGen, m' CurrentGen))
        (makeCurrentGenSameAsNextGen NextGen CurrentGen ROW block_mem) =
       Some (block_board,
             [[0, 0, 0, 0], [0, 0, 0, 0], [0, 0, 0, 0], [0, 0, 0, 0], [0, 0, 0, 0]])"
proof -
  have h: "NextGen \<noteq> CurrentGen" "wf_board (block_mem NextGen)" "wf_board (block_mem CurrentGen)"
    by (simp_all add: block_mem_simps wf_block_board wf_junk_board)
  from makeCurrentGenSameAsNextGen_copies_and_clears [OF h]
  obtain m' where m': "makeCurrentGenSameAsNextGen NextGen CurrentGen ROW block_mem = Some m'"
    and cells: "\<forall>i<nat ROW. \<forall>j<nat COL. m' CurrentGen ! i ! j = 0"
    and copy: "m' NextGen = block_mem CurrentGen"
    and wf: "wf_board (m' CurrentGen)"
    by blast
  have z: "zero_board = [[0, 0, 0, 0], [0, 0, 0, 0], [0, 0, 0, 0], [0, 0, 0, 0], [0, 0, 0, 0]]"
    by (simp add: zero_board_def ROW_def COL_def eval_nat_numeral)
  have "m' CurrentGen = zero_board"
    using wf cells by (intro wf_board_eqI) (simp_all add: wf_zero_board zero_board_nth)
  then show ?thesis
    using h m' copy z by (simp add: block_mem_simps)
qed

end
